theory Spec2Isabelle
  imports Main
begin

section \<open>The bundler service (src/AA/bundler.py)\<close>

text \<open>
  The service keeps one SQLite table, \<open>operations\<close>, and runs on one asyncio event loop.
  \<open>submit_op\<close>, \<open>process_op\<close>, \<open>get_status\<close> and \<open>get_history\<close> contain no \<open>await\<close>, so each
  of them runs from its first line to its last without another coroutine in between. The
  model therefore is a state with the table and the tasks that \<open>asyncio.create_task\<close> has
  scheduled, and one atomic step per call.
\<close>

subsection \<open>Exceptions\<close>

text \<open>
  \<open>ValidationError\<close>: pydantic refuses a value, either the request body against the
  \<open>UserOperation\<close> model (FastAPI answers 422) or an argument of \<open>OpStatus(...)\<close>
  inside a query. \<open>IntegrityError\<close>: sqlite3 on a second row with the same primary key.
  \<open>HTTPException\<close>: raised by \<open>get_status\<close>. \<open>Raised\<close>: any other subclass of \<open>Exception\<close>,
  coming from web3, the signer or \<open>json.dumps\<close>, with its message.
\<close>

datatype exn = ValidationError | IntegrityError | HTTPException nat string | Raised string

subsection \<open>Data\<close>

record UserOperation =
  sender :: string
  nonce :: int
  initCode :: string
  callData :: string
  callGasLimit :: int
  verificationGasLimit :: int
  preVerificationGas :: int
  maxFeePerGas :: int
  maxPriorityFeePerGas :: int
  signature :: string
  paymasterAndData :: string

text \<open>
  The body of a POST request before pydantic has seen it. Every field of \<open>UserOperation\<close>
  is declared without a default, so every field is required. \<open>None\<close> stands for a field
  that is absent or whose value pydantic cannot take as the declared type.
\<close>

record request_body =
  body_sender :: "string option"
  body_nonce :: "int option"
  body_initCode :: "string option"
  body_callData :: "string option"
  body_callGasLimit :: "int option"
  body_verificationGasLimit :: "int option"
  body_preVerificationGas :: "int option"
  body_maxFeePerGas :: "int option"
  body_maxPriorityFeePerGas :: "int option"
  body_signature :: "string option"
  body_paymasterAndData :: "string option"

text \<open>
  A row of the table \<open>operations (op_hash TEXT PRIMARY KEY, user_op TEXT, status TEXT,
  receipt TEXT, created_at INTEGER)\<close>. The column \<open>user_op\<close> holds
  \<open>json.dumps(user_op.dict())\<close>; the model keeps the dictionary that this text encodes.
  The column \<open>receipt\<close> is NULL (\<open>None\<close>) or the text \<open>json.dumps(dict(receipt))\<close>.
\<close>

record operations_row =
  op_hash :: string
  user_op :: UserOperation
  status :: string
  receipt :: "string option"
  created_at :: int

type_synonym operations = "operations_row list"

text \<open>
  The response model \<open>OpStatus(op_hash, status, receipt)\<close>. Its receipt is
  \<open>json.loads\<close> of the stored text; the model names a JSON document by its text.
\<close>

datatype OpStatus = OpStatus (os_op_hash: string) (os_status: string) (os_receipt: "string option")

text \<open>The dictionary \<open>tx\<close> that \<open>process_op\<close> builds, with its six keys.\<close>

record tx =
  tx_to :: string
  tx_data :: string
  tx_gas :: int
  tx_maxFeePerGas :: int
  tx_maxPriorityFeePerGas :: int
  tx_nonce :: int

text \<open>
  What one run of \<open>process_op\<close> meets outside the program, call by call:
  \<open>w3.eth.get_transaction_count(account.address)\<close>,
  \<open>w3.eth.account.sign_transaction(tx, account.key)\<close> (giving \<open>rawTransaction\<close>),
  \<open>w3.eth.send_raw_transaction\<close>, \<open>w3.eth.wait_for_transaction_receipt\<close> and
  \<open>json.dumps(dict(receipt))\<close>. Each call returns or raises. \<open>'r\<close> is the type of the
  receipt object that web3 returns.
\<close>

record 'r env =
  get_transaction_count :: "exn + int"
  sign_transaction :: "tx \<Rightarrow> exn + string"
  send_raw_transaction :: "string \<Rightarrow> exn + string"
  wait_for_transaction_receipt :: "string \<Rightarrow> exn + 'r"
  json_dumps :: "'r \<Rightarrow> exn + string"

text \<open>The table and the tasks created by \<open>asyncio.create_task\<close> that have not run yet.\<close>

record system =
  db :: operations
  tasks :: "(string \<times> UserOperation) list"

definition init_system :: system where
  "init_system = \<lparr>db = [], tasks = []\<rparr>"

subsection \<open>The SQL statements\<close>

text \<open>
  \<open>INSERT INTO operations (op_hash, user_op, status, created_at) VALUES (?, ?, ?, ?)\<close>:
  the column \<open>receipt\<close> is not named and stays NULL; \<open>op_hash\<close> is the primary key, so a
  second row with the same key raises.
\<close>

definition sql_insert :: "string \<Rightarrow> UserOperation \<Rightarrow> string \<Rightarrow> int \<Rightarrow> operations \<Rightarrow> exn + operations" where
  "sql_insert h uop st t tbl =
     (if h \<in> set (map op_hash tbl) then Inl IntegrityError
      else Inr (tbl @ [\<lparr>op_hash = h, user_op = uop, status = st, receipt = None, created_at = t\<rparr>]))"

text \<open>
  \<open>UPDATE operations SET status = ?, receipt = ? WHERE op_hash = ?\<close> and
  \<open>UPDATE operations SET status = ? WHERE op_hash = ?\<close>. An UPDATE whose WHERE clause
  selects no row changes nothing and raises nothing.
\<close>

definition sql_update_status_receipt :: "string \<Rightarrow> string \<Rightarrow> string \<Rightarrow> operations \<Rightarrow> exn + operations" where
  "sql_update_status_receipt st rc h tbl =
     Inr (map (\<lambda>r. if op_hash r = h then r\<lparr>status := st, receipt := Some rc\<rparr> else r) tbl)"

definition sql_update_status :: "string \<Rightarrow> string \<Rightarrow> operations \<Rightarrow> exn + operations" where
  "sql_update_status st h tbl =
     Inr (map (\<lambda>r. if op_hash r = h then r\<lparr>status := st\<rparr> else r) tbl)"

text \<open>\<open>SELECT status, receipt FROM operations WHERE op_hash = ?\<close> with \<open>fetchone()\<close>.\<close>

definition sql_select_one :: "string \<Rightarrow> operations \<Rightarrow> (string \<times> string option) option" where
  "sql_select_one h tbl =
     (case filter (\<lambda>r. op_hash r = h) tbl of
        [] \<Rightarrow> None
      | r # _ \<Rightarrow> Some (status r, receipt r))"

text \<open>\<open>SELECT op_hash, status, receipt FROM operations\<close> with \<open>fetchall()\<close>.\<close>

definition sql_select_all :: "operations \<Rightarrow> (string \<times> string \<times> string option) list" where
  "sql_select_all tbl = map (\<lambda>r. (op_hash r, status r, receipt r)) tbl"

subsection \<open>Intake\<close>

text \<open>
  The validation FastAPI runs before it calls \<open>submit_op\<close>: the declaration of
  \<open>UserOperation\<close> asks for the eleven fields and for nothing else.
\<close>

definition parse_UserOperation :: "request_body \<Rightarrow> exn + UserOperation" where
  "parse_UserOperation b =
     (if body_sender b = None \<or> body_nonce b = None \<or> body_initCode b = None
         \<or> body_callData b = None \<or> body_callGasLimit b = None
         \<or> body_verificationGasLimit b = None \<or> body_preVerificationGas b = None
         \<or> body_maxFeePerGas b = None \<or> body_maxPriorityFeePerGas b = None
         \<or> body_signature b = None \<or> body_paymasterAndData b = None
      then Inl ValidationError
      else Inr \<lparr>sender = the (body_sender b), nonce = the (body_nonce b),
                initCode = the (body_initCode b), callData = the (body_callData b),
                callGasLimit = the (body_callGasLimit b),
                verificationGasLimit = the (body_verificationGasLimit b),
                preVerificationGas = the (body_preVerificationGas b),
                maxFeePerGas = the (body_maxFeePerGas b),
                maxPriorityFeePerGas = the (body_maxPriorityFeePerGas b),
                signature = the (body_signature b),
                paymasterAndData = the (body_paymasterAndData b)\<rparr>)"

text \<open>
  \<open>submit_op\<close>. \<open>uuid4\<close> is the value of \<open>str(uuid.uuid4())\<close> and \<open>now\<close> the value of
  \<open>int(time.time())\<close> in this call. When the INSERT raises, the exception leaves the
  function before \<open>create_task\<close>.
\<close>

definition submit_op :: "UserOperation \<Rightarrow> string \<Rightarrow> int \<Rightarrow> system \<Rightarrow> (exn + string) \<times> system" where
  "submit_op uop uuid4 now s =
     (case sql_insert uuid4 uop ''pending'' now (db s) of
        Inl e \<Rightarrow> (Inl e, s)
      | Inr tbl \<Rightarrow> (Inr uuid4, s\<lparr>db := tbl, tasks := tasks s @ [(uuid4, uop)]\<rparr>))"

text \<open>The route \<open>POST /api/submit_op\<close>: validation, then \<open>submit_op\<close>.\<close>

definition post_submit_op :: "request_body \<Rightarrow> string \<Rightarrow> int \<Rightarrow> system \<Rightarrow> (exn + string) \<times> system" where
  "post_submit_op b uuid4 now s =
     (case parse_UserOperation b of
        Inl e \<Rightarrow> (Inl e, s)
      | Inr uop \<Rightarrow> submit_op uop uuid4 now s)"

subsection \<open>The worker\<close>

definition entry_point_address :: string where
  "entry_point_address = ''0x5FF137D4b0FDCD49DcA30c7CF57E578a026d2789''"

definition encode_user_op :: "UserOperation \<Rightarrow> string" where
  "encode_user_op uop = ''0x''"

text \<open>The dictionary \<open>tx\<close> of \<open>process_op\<close>, given the relayer's transaction count.\<close>

definition build_tx :: "UserOperation \<Rightarrow> int \<Rightarrow> tx" where
  "build_tx uop n =
     \<lparr>tx_to = entry_point_address, tx_data = encode_user_op uop, tx_gas = 1000000,
      tx_maxFeePerGas = maxFeePerGas uop,
      tx_maxPriorityFeePerGas = maxPriorityFeePerGas uop, tx_nonce = n\<rparr>"

text \<open>
  The body of the \<open>try\<close> up to the arguments of the UPDATE: the first call that raises
  ends it; otherwise it yields the text of the receipt.
\<close>

definition send_user_op :: "'r env \<Rightarrow> UserOperation \<Rightarrow> exn + string" where
  "send_user_op e uop =
     (case get_transaction_count e of
        Inl x \<Rightarrow> Inl x
      | Inr n \<Rightarrow>
          (case sign_transaction e (build_tx uop n) of
             Inl x \<Rightarrow> Inl x
           | Inr raw \<Rightarrow>
               (case send_raw_transaction e raw of
                  Inl x \<Rightarrow> Inl x
                | Inr tx_hash \<Rightarrow>
                    (case wait_for_transaction_receipt e tx_hash of
                       Inl x \<Rightarrow> Inl x
                     | Inr rcpt \<Rightarrow> json_dumps e rcpt))))"

text \<open>
  \<open>process_op\<close>: \<open>except Exception\<close> takes every exception of the \<open>try\<close>, also one of the
  first UPDATE; an exception of the handler's own UPDATE would leave the function.
\<close>

definition process_op :: "'r env \<Rightarrow> string \<Rightarrow> UserOperation \<Rightarrow> operations \<Rightarrow> exn + operations" where
  "process_op e h uop tbl =
     (case send_user_op e uop of
        Inl x \<Rightarrow> sql_update_status ''failed'' h tbl
      | Inr rc \<Rightarrow>
          (case sql_update_status_receipt ''completed'' rc h tbl of
             Inl x \<Rightarrow> sql_update_status ''failed'' h tbl
           | Inr tbl' \<Rightarrow> Inr tbl'))"

subsection \<open>Status and history\<close>

text \<open>\<open>json.loads(x) if x else None\<close>: NULL and the empty text both give \<open>None\<close>.\<close>

definition loads_receipt :: "string option \<Rightarrow> string option" where
  "loads_receipt x = (case x of None \<Rightarrow> None | Some t \<Rightarrow> if t = [] then None else Some t)"

text \<open>
  The class \<open>OpStatus\<close> declares \<open>receipt: dict = None\<close>, and both queries pass the
  receipt by keyword, also when it is \<open>None\<close>. Pydantic 1 reads the default \<open>None\<close> as
  making the field optional and builds the object. Pydantic 2 keeps the type \<open>dict\<close> for a
  value that is passed and refuses \<open>None\<close> with a \<open>ValidationError\<close>. The repository
  pins no version of pydantic, so the version is an input of the two queries.
\<close>

datatype pydantic = Pydantic1 | Pydantic2

definition OpStatus_init :: "pydantic \<Rightarrow> string \<Rightarrow> string \<Rightarrow> string option \<Rightarrow> exn + OpStatus" where
  "OpStatus_init v h st rc =
     (if rc = None \<and> v = Pydantic2 then Inl ValidationError else Inr (OpStatus h st rc))"

definition get_status :: "pydantic \<Rightarrow> string \<Rightarrow> operations \<Rightarrow> exn + OpStatus" where
  "get_status v h tbl =
     (case sql_select_one h tbl of
        None \<Rightarrow> Inl (HTTPException 404 ''Operation not found'')
      | Some (st, rc) \<Rightarrow> OpStatus_init v h st (loads_receipt rc))"

text \<open>
  The list comprehension of \<open>get_history\<close> builds one \<open>OpStatus\<close> per row, in the order
  of the rows; the first one that raises ends the request.
\<close>

fun OpStatus_rows :: "pydantic \<Rightarrow> (string \<times> string \<times> string option) list \<Rightarrow> exn + OpStatus list" where
  "OpStatus_rows v [] = Inr []"
| "OpStatus_rows v ((h, st, rc) # rows) =
     (case OpStatus_init v h st (loads_receipt rc) of
        Inl e \<Rightarrow> Inl e
      | Inr x \<Rightarrow>
          (case OpStatus_rows v rows of
             Inl e \<Rightarrow> Inl e
           | Inr xs \<Rightarrow> Inr (x # xs)))"

definition get_history :: "pydantic \<Rightarrow> operations \<Rightarrow> exn + OpStatus list" where
  "get_history v tbl = OpStatus_rows v (sql_select_all tbl)"

subsection \<open>The event loop\<close>

text \<open>
  An event is a request to the intake route, with the identifier and the time drawn in
  that call, or the event loop running the scheduled task at some position, with what
  that run meets outside. A position with no task does nothing. The loop may run the
  tasks in any order.
\<close>

datatype 'r event = Submit request_body string int | Run nat "'r env"

datatype response = Accepted string | Rejected exn | Processed string | Escaped string exn | NoTask

fun drop_nth :: "nat \<Rightarrow> 'a list \<Rightarrow> 'a list" where
  "drop_nth i xs = take i xs @ drop (Suc i) xs"

fun step :: "'r event \<Rightarrow> system \<Rightarrow> response \<times> system" where
  "step (Submit b uuid4 now) s =
     (case post_submit_op b uuid4 now s of
        (Inl e, s') \<Rightarrow> (Rejected e, s')
      | (Inr h, s') \<Rightarrow> (Accepted h, s'))"
| "step (Run i e) s =
     (if i < length (tasks s) then
        (case tasks s ! i of (h, uop) \<Rightarrow>
           (case process_op e h uop (db s) of
              Inl x \<Rightarrow> (Escaped h x, s\<lparr>tasks := drop_nth i (tasks s)\<rparr>)
            | Inr tbl \<Rightarrow> (Processed h, s\<lparr>db := tbl, tasks := drop_nth i (tasks s)\<rparr>)))
      else (NoTask, s))"

fun run :: "'r event list \<Rightarrow> system \<Rightarrow> response list \<times> system" where
  "run [] s = ([], s)"
| "run (ev # evs) s =
     (case step ev s of (r, s') \<Rightarrow>
        (case run evs s' of (rs, s'') \<Rightarrow> (r # rs, s'')))"

text \<open>The identifiers handed out, and the identifiers whose task has run, in a trace.\<close>

fun accepted :: "response list \<Rightarrow> string list" where
  "accepted [] = []"
| "accepted (Accepted h # rs) = h # accepted rs"
| "accepted (_ # rs) = accepted rs"


subsection \<open>Invariant of the event loop\<close>


text \<open>
  What holds of every state the service reaches: the primary key is unique, no identifier
  has two tasks, every task waits on a row that is still \<open>pending\<close>, and a row carries a
  receipt exactly when it is \<open>completed\<close>.
\<close>

definition consistent :: "system \<Rightarrow> bool" where
  "consistent s \<longleftrightarrow>
     distinct (map op_hash (db s)) \<and>
     distinct (map fst (tasks s)) \<and>
     (\<forall>(h, uop) \<in> set (tasks s).
        \<exists>r \<in> set (db s). op_hash r = h \<and> user_op r = uop \<and> status r = ''pending'') \<and>
     (\<forall>r \<in> set (db s).
        (status r = ''pending'' \<or> status r = ''completed'' \<or> status r = ''failed'') \<and>
        ((receipt r \<noteq> None) = (status r = ''completed'')))"

subsection \<open>Example inputs\<close>

definition body_A :: request_body where
  "body_A = \<lparr>body_sender = Some ''0xAA'', body_nonce = Some 0, body_initCode = Some ''0x'',
     body_callData = Some ''0xb61d27f6'', body_callGasLimit = Some 100000,
     body_verificationGasLimit = Some 150000, body_preVerificationGas = Some 21000,
     body_maxFeePerGas = Some 30, body_maxPriorityFeePerGas = Some 2,
     body_signature = Some ''0xsig'', body_paymasterAndData = Some ''0x''\<rparr>"

definition op_A :: UserOperation where
  "op_A = \<lparr>sender = ''0xAA'', nonce = 0, initCode = ''0x'', callData = ''0xb61d27f6'',
     callGasLimit = 100000, verificationGasLimit = 150000, preVerificationGas = 21000,
     maxFeePerGas = 30, maxPriorityFeePerGas = 2, signature = ''0xsig'',
     paymasterAndData = ''0x''\<rparr>"

definition op_B :: UserOperation where
  "op_B = \<lparr>sender = ''0xBB'', nonce = 7, initCode = ''0x01'', callData = ''0x'',
     callGasLimit = 1, verificationGasLimit = 2, preVerificationGas = 3,
     maxFeePerGas = 30, maxPriorityFeePerGas = 2, signature = ''0xother'',
     paymasterAndData = ''0xpm''\<rparr>"

text \<open>
  A gateway that confirms with a receipt that \<open>json.dumps\<close> takes, one that rejects the
  broadcast, and one that confirms with a receipt as web3 returns it: its hashes are
  \<open>HexBytes\<close>, which \<open>json.dumps\<close> refuses with a \<open>TypeError\<close>.
\<close>

definition env_confirmed :: "string env" where
  "env_confirmed = \<lparr>get_transaction_count = Inr 5,
     sign_transaction = (\<lambda>t. Inr ''0xraw''),
     send_raw_transaction = (\<lambda>raw. Inr ''0xhash''),
     wait_for_transaction_receipt = (\<lambda>h. Inr ''{}''),
     json_dumps = (\<lambda>r. Inr r)\<rparr>"

definition env_rejected :: "string env" where
  "env_rejected = \<lparr>get_transaction_count = Inr 5,
     sign_transaction = (\<lambda>t. Inr ''0xraw''),
     send_raw_transaction = (\<lambda>raw. Inl (Raised ''nonce too low'')),
     wait_for_transaction_receipt = (\<lambda>h. Inr ''{}''),
     json_dumps = (\<lambda>r. Inr r)\<rparr>"

definition env_unserialisable :: "string env" where
  "env_unserialisable = \<lparr>get_transaction_count = Inr 5,
     sign_transaction = (\<lambda>t. Inr ''0xraw''),
     send_raw_transaction = (\<lambda>raw. Inr ''0xhash''),
     wait_for_transaction_receipt = (\<lambda>h. Inr ''receipt''),
     json_dumps = (\<lambda>r. Inl (Raised ''Object of type HexBytes is not JSON serializable''))\<rparr>"

text \<open>
  Three submissions of the same body; then the task of the first runs against a gateway
  that confirms, and the task of the second against one that rejects the broadcast. The
  third task has not run.
\<close>

definition trace_A :: "string event list" where
  "trace_A = [Submit body_A ''id-1'' 1700000000, Submit body_A ''id-2'' 1700000001,
              Submit body_A ''id-3'' 1700000002, Run 0 env_confirmed, Run 0 env_rejected]"

definition row_1 :: operations_row where
  "row_1 = \<lparr>op_hash = ''id-1'', user_op = op_A, status = ''completed'', receipt = Some ''{}'',
            created_at = 1700000000\<rparr>"

definition row_2 :: operations_row where
  "row_2 = \<lparr>op_hash = ''id-2'', user_op = op_A, status = ''failed'', receipt = None,
            created_at = 1700000001\<rparr>"

definition row_3 :: operations_row where
  "row_3 = \<lparr>op_hash = ''id-3'', user_op = op_A, status = ''pending'', receipt = None,
            created_at = 1700000002\<rparr>"

definition pending_1 :: operations_row where
  "pending_1 = \<lparr>op_hash = ''id-1'', user_op = op_A, status = ''pending'', receipt = None,
               created_at = 1700000000\<rparr>"

definition pending_2 :: operations_row where
  "pending_2 = \<lparr>op_hash = ''id-2'', user_op = op_A, status = ''pending'', receipt = None,
               created_at = 1700000001\<rparr>"

text \<open>A body with a negative gas limit and a negative fee, and one without signature.\<close>

definition body_negative :: request_body where
  "body_negative = \<lparr>body_sender = Some ''0xAA'', body_nonce = Some 0, body_initCode = Some ''0x'',
     body_callData = Some ''0xb61d27f6'', body_callGasLimit = Some (- 1),
     body_verificationGasLimit = Some 150000, body_preVerificationGas = Some 21000,
     body_maxFeePerGas = Some (- 5), body_maxPriorityFeePerGas = Some 2,
     body_signature = Some ''0xsig'', body_paymasterAndData = Some ''0x''\<rparr>"

definition op_negative :: UserOperation where
  "op_negative = \<lparr>sender = ''0xAA'', nonce = 0, initCode = ''0x'', callData = ''0xb61d27f6'',
     callGasLimit = - 1, verificationGasLimit = 150000, preVerificationGas = 21000,
     maxFeePerGas = - 5, maxPriorityFeePerGas = 2, signature = ''0xsig'',
     paymasterAndData = ''0x''\<rparr>"

definition body_unsigned :: request_body where
  "body_unsigned = \<lparr>body_sender = Some ''0xAA'', body_nonce = Some 0, body_initCode = Some ''0x'',
     body_callData = Some ''0xb61d27f6'', body_callGasLimit = Some 100000,
     body_verificationGasLimit = Some 150000, body_preVerificationGas = Some 21000,
     body_maxFeePerGas = Some 30, body_maxPriorityFeePerGas = Some 2,
     body_signature = None, body_paymasterAndData = Some ''0x''\<rparr>"

section \<open>Properties\<close>




lemma process_op_eq:
  "process_op e h uop tbl =
     Inr (map (\<lambda>r. if op_hash r = h
                    then (case send_user_op e uop of
                            Inl x \<Rightarrow> r\<lparr>status := ''failed''\<rparr>
                          | Inr rc \<Rightarrow> r\<lparr>status := ''completed'', receipt := Some rc\<rparr>)
                    else r) tbl)"
  by (simp add: process_op_def sql_update_status_def sql_update_status_receipt_def
           split: sum.split)

lemma op_hash_process_op:
  "process_op e h uop tbl = Inr tbl' \<Longrightarrow> map op_hash tbl' = map op_hash tbl"
  by (auto simp: process_op_eq split: sum.split)

lemma post_submit_op_eq:
  "post_submit_op b u t s =
     (case parse_UserOperation b of
        Inl x \<Rightarrow> (Inl x, s)
      | Inr uop \<Rightarrow>
          if u \<in> set (map op_hash (db s)) then (Inl IntegrityError, s)
          else (Inr u, s\<lparr>db := db s @ [\<lparr>op_hash = u, user_op = uop, status = ''pending'',
                                         receipt = None, created_at = t\<rparr>],
                        tasks := tasks s @ [(u, uop)]\<rparr>))"
  by (simp add: post_submit_op_def submit_op_def sql_insert_def split: sum.split)

lemma step_Submit_eq:
  "step (Submit b u t) s =
     (case parse_UserOperation b of
        Inl x \<Rightarrow> (Rejected x, s)
      | Inr uop \<Rightarrow>
          if u \<in> set (map op_hash (db s)) then (Rejected IntegrityError, s)
          else (Accepted u, s\<lparr>db := db s @ [\<lparr>op_hash = u, user_op = uop, status = ''pending'',
                                         receipt = None, created_at = t\<rparr>],
                        tasks := tasks s @ [(u, uop)]\<rparr>))"
  by (simp add: step.simps post_submit_op_eq split: sum.split)

lemma step_Run_eq:
  "step (Run i e) s =
     (if i < length (tasks s)
      then (Processed (fst (tasks s ! i)),
            s\<lparr>db := map (\<lambda>r. if op_hash r = fst (tasks s ! i)
                    then (case send_user_op e (snd (tasks s ! i)) of
                            Inl x \<Rightarrow> r\<lparr>status := ''failed''\<rparr>
                          | Inr rc \<Rightarrow> r\<lparr>status := ''completed'', receipt := Some rc\<rparr>)
                    else r) (db s),
              tasks := drop_nth i (tasks s)\<rparr>)
      else (NoTask, s))"
  by (simp add: step.simps process_op_eq split: prod.split)

declare step.simps [simp del]

lemma keys_step:
  "step ev s = (r, s') \<Longrightarrow> map op_hash (db s') = map op_hash (db s) @ accepted [r]"
proof (cases ev)
  case (Submit b u t)
  assume "step ev s = (r, s')"
  with Submit show ?thesis
    by (auto simp: step_Submit_eq split: sum.splits if_splits)
next
  case (Run i e)
  assume "step ev s = (r, s')"
  with Run show ?thesis
    by (auto simp: step_Run_eq split: sum.splits if_splits)
qed

lemma accepted_append: "accepted (xs @ ys) = accepted xs @ accepted ys"
  by (induction xs rule: accepted.induct) auto


lemma keys_run:
  "run evs s = (rs, s') \<Longrightarrow> map op_hash (db s') = map op_hash (db s) @ accepted rs"
proof (induction evs arbitrary: s rs s')
  case Nil
  then show ?case by simp
next
  case (Cons ev evs)
  obtain r s1 where st: "step ev s = (r, s1)" by (cases "step ev s")
  obtain rs1 s2 where rn: "run evs s1 = (rs1, s2)" by (cases "run evs s1")
  from Cons.prems st rn have eq: "rs = r # rs1" "s' = s2" by auto
  have "map op_hash (db s2) = map op_hash (db s1) @ accepted rs1"
    using Cons.IH [OF rn] .
  moreover have "map op_hash (db s1) = map op_hash (db s) @ accepted [r]"
    using keys_step [OF st] .
  ultimately show ?case using eq accepted_append [of "[r]" rs1] by simp
qed



lemma consistent_init: "consistent init_system"
  by (simp add: consistent_def init_system_def)

lemma set_drop_nth: "set (drop_nth i xs) \<subseteq> set xs"
  by (auto dest: in_set_takeD in_set_dropD)

lemma distinct_drop_nth: "distinct (map f xs) \<Longrightarrow> distinct (map f (drop_nth i xs))"
proof -
  assume d: "distinct (map f xs)"
  let ?ys = "map f xs"
  have eq: "map f (drop_nth i xs) = take i ?ys @ drop (Suc i) ?ys"
    by (simp add: take_map drop_map)
  have "set (take i ?ys) \<inter> set (drop (Suc i) ?ys) = {}"
    using d by (rule set_take_disj_set_drop_if_distinct) simp
  moreover from d have "distinct (take i ?ys)" "distinct (drop (Suc i) ?ys)" by simp_all
  ultimately have "distinct (take i ?ys @ drop (Suc i) ?ys)" by simp
  with eq show ?thesis by simp
qed

lemma nth_notin_drop_nth:
  "distinct (map f xs) \<Longrightarrow> i < length xs \<Longrightarrow> f (xs ! i) \<notin> f ` set (drop_nth i xs)"
proof -
  assume d: "distinct (map f xs)" and i: "i < length xs"
  have "map f xs = take i (map f xs) @ f (xs ! i) # drop (Suc i) (map f xs)"
    using id_take_nth_drop [of i "map f xs"] i by simp
  with d have "distinct (take i (map f xs) @ f (xs ! i) # drop (Suc i) (map f xs))" by simp
  then have "f (xs ! i) \<notin> set (take i (map f xs)) \<union> set (drop (Suc i) (map f xs))"
    by auto
  then show ?thesis by (simp add: take_map drop_map image_Un)
qed

lemma consistent_Submit:
  assumes "consistent s"
  shows "consistent (snd (step (Submit b u t) s))"
proof (cases "parse_UserOperation b")
  case (Inl x)
  with assms show ?thesis by (simp add: step_Submit_eq)
next
  case (Inr uop)
  show ?thesis
  proof (cases "u \<in> set (map op_hash (db s))")
    case True
    with Inr assms show ?thesis by (simp add: step_Submit_eq)
  next
    case False
    have "u \<notin> fst ` set (tasks s)"
    proof
      assume "u \<in> fst ` set (tasks s)"
      then obtain uop' where "(u, uop') \<in> set (tasks s)" by auto
      with assms obtain r where "r \<in> set (db s)" "op_hash r = u"
        unfolding consistent_def by blast
      with False show False by auto
    qed
    with Inr False assms show ?thesis
      unfolding consistent_def by (auto simp: step_Submit_eq)
  qed
qed


text \<open>
  C10. The transaction of \<open>process_op\<close> has the fixed entry point as destination, the
  payload \<open>0x\<close> and the gas 1000000 whatever the operation is; two operations with the
  same two fee fields give the same transaction, the same outcome of the submission and
  the same table, whatever their sender, nonce, initCode, callData, signature and
  paymasterAndData are.
\<close>

theorem tx_independent_of_operation:
  "encode_user_op a = ''0x'' \<and>
   tx_to (build_tx a n) = entry_point_address \<and>
   tx_data (build_tx a n) = ''0x'' \<and>
   tx_gas (build_tx a n) = 1000000 \<and>
   (maxFeePerGas a = maxFeePerGas b \<and> maxPriorityFeePerGas a = maxPriorityFeePerGas b \<longrightarrow>
      build_tx a n = build_tx b n \<and>
      send_user_op e a = send_user_op e b \<and>
      process_op e h a tbl = process_op e h b tbl)"
proof -
  have fixed: "encode_user_op a = ''0x''" "tx_to (build_tx a n) = entry_point_address"
    "tx_data (build_tx a n) = ''0x''" "tx_gas (build_tx a n) = 1000000"
    by (simp_all add: encode_user_op_def build_tx_def)
  have same: "build_tx a n = build_tx b n \<and> send_user_op e a = send_user_op e b \<and>
      process_op e h a tbl = process_op e h b tbl"
    if fees: "maxFeePerGas a = maxFeePerGas b \<and> maxPriorityFeePerGas a = maxPriorityFeePerGas b"
  proof -
    have tx: "build_tx a k = build_tx b k" for k
      using fees by (simp add: build_tx_def encode_user_op_def)
    have sent: "send_user_op e a = send_user_op e b"
      by (simp add: send_user_op_def tx cong: sum.case_cong)
    show ?thesis
      by (simp add: tx process_op_def sent)
  qed
  from fixed same show ?thesis by blast
qed

theorem tx_independent_of_operation_witness:
  "maxFeePerGas op_A = maxFeePerGas op_B \<and>
   maxPriorityFeePerGas op_A = maxPriorityFeePerGas op_B \<and>
   sender op_A \<noteq> sender op_B \<and> nonce op_A \<noteq> nonce op_B \<and>
   callData op_A \<noteq> callData op_B \<and> signature op_A \<noteq> signature op_B \<and>
   build_tx op_A 5 = build_tx op_B 5 \<and>
   process_op env_confirmed ''id-1'' op_A [] = process_op env_confirmed ''id-1'' op_B []"
  using tx_independent_of_operation [of op_A 5 op_B env_confirmed "''id-1''" "[]"]
  by (simp add: op_A_def op_B_def)


subsection \<open>Rows and tasks\<close>

lemma consistent_keys: "consistent s \<Longrightarrow> distinct (map op_hash (db s))"
  by (simp add: consistent_def)

lemma consistent_tasks: "consistent s \<Longrightarrow> distinct (map fst (tasks s))"
  by (simp add: consistent_def)

lemma consistent_task:
  "consistent s \<Longrightarrow> (h, uop) \<in> set (tasks s) \<Longrightarrow>
   \<exists>r \<in> set (db s). op_hash r = h \<and> user_op r = uop \<and> status r = ''pending''"
  by (fastforce simp: consistent_def)

lemma consistent_row:
  "consistent s \<Longrightarrow> r \<in> set (db s) \<Longrightarrow>
   (status r = ''pending'' \<or> status r = ''completed'' \<or> status r = ''failed'') \<and>
   ((receipt r \<noteq> None) = (status r = ''completed''))"
  by (simp add: consistent_def)

lemma consistentI:
  assumes "distinct (map op_hash (db s))" "distinct (map fst (tasks s))"
    and "\<And>h uop. (h, uop) \<in> set (tasks s) \<Longrightarrow>
           \<exists>r \<in> set (db s). op_hash r = h \<and> user_op r = uop \<and> status r = ''pending''"
    and "\<And>r. r \<in> set (db s) \<Longrightarrow>
           (status r = ''pending'' \<or> status r = ''completed'' \<or> status r = ''failed'') \<and>
           ((receipt r \<noteq> None) = (status r = ''completed''))"
  shows "consistent s"
  unfolding consistent_def using assms by fast

lemma row_unique:
  assumes "distinct (map op_hash tbl)" "r \<in> set tbl" "r' \<in> set tbl" "op_hash r = op_hash r'"
  shows "r = r'"
proof -
  from assms(1) have "inj_on op_hash (set tbl)" by (simp add: distinct_map)
  from inj_onD [OF this assms(4) assms(2) assms(3)] show ?thesis .
qed

lemma task_row:
  assumes "consistent s" "(h, uop) \<in> set (tasks s)" "r \<in> set (db s)" "op_hash r = h"
  shows "status r = ''pending'' \<and> receipt r = None \<and> user_op r = uop"
proof -
  from consistent_task [OF assms(1,2)] obtain r' where r': "r' \<in> set (db s)" "op_hash r' = h"
      "user_op r' = uop" "status r' = ''pending''"
    by blast
  have "r = r'"
    using consistent_keys [OF assms(1)] assms(3) r'(1) assms(4) r'(2)
    by (simp add: row_unique)
  moreover from consistent_row [OF assms(1) r'(1)]
  have "(receipt r' \<noteq> None) = (status r' = ''completed'')" by simp
  ultimately show ?thesis using r'(3,4) by simp
qed

lemma consistent_Run:
  assumes c: "consistent s"
  shows "consistent (snd (step (Run i e) s))"
proof (cases "i < length (tasks s)")
  case False
  with c show ?thesis by (simp add: step_Run_eq)
next
  case True
  define h where "h = fst (tasks s ! i)"
  define uop where "uop = snd (tasks s ! i)"
  define upd :: "operations_row \<Rightarrow> operations_row" where "upd = (\<lambda>r. if op_hash r = h
       then (case send_user_op e uop of
               Inl x \<Rightarrow> r\<lparr>status := ''failed''\<rparr>
             | Inr rc \<Rightarrow> r\<lparr>status := ''completed'', receipt := Some rc\<rparr>)
       else r)"
  define s' where "s' = s\<lparr>db := map upd (db s), tasks := drop_nth i (tasks s)\<rparr>"
  have step: "snd (step (Run i e) s) = s'"
    using True by (simp add: step_Run_eq h_def uop_def upd_def s'_def)
  have db': "db s' = map upd (db s)" and tasks': "tasks s' = drop_nth i (tasks s)"
    by (simp_all add: s'_def)
  have task: "(h, uop) \<in> set (tasks s)"
    using True nth_mem [of i "tasks s"] by (simp add: h_def uop_def)
  have key: "op_hash (upd r) = op_hash r" for r
    by (simp add: upd_def split: sum.split)
  have "op_hash \<circ> upd = op_hash"
    by (rule ext) (simp add: key)
  then have d1: "distinct (map op_hash (db s'))"
    using consistent_keys [OF c] by (simp add: db')
  have d2: "distinct (map fst (tasks s'))"
    unfolding tasks' using consistent_tasks [OF c] by (rule distinct_drop_nth)
  have t: "\<exists>r \<in> set (db s'). op_hash r = h' \<and> user_op r = uop' \<and> status r = ''pending''"
    if "(h', uop') \<in> set (tasks s')" for h' uop'
  proof -
    from that set_drop_nth [of i "tasks s"] have mem: "(h', uop') \<in> set (tasks s)"
      unfolding tasks' by blast
    from consistent_task [OF c mem] obtain r where r: "r \<in> set (db s)" "op_hash r = h'"
        "user_op r = uop'" "status r = ''pending''"
      by blast
    have "fst (tasks s ! i) \<notin> fst ` set (drop_nth i (tasks s))"
      using consistent_tasks [OF c] True by (rule nth_notin_drop_nth)
    moreover have "h' \<in> fst ` set (drop_nth i (tasks s))"
      using that unfolding tasks' by force
    ultimately have "h' \<noteq> h" unfolding h_def by blast
    with r(2) have "upd r = r" by (simp add: upd_def)
    with r(1) have "r \<in> set (db s')" unfolding db' by force
    with r(2-4) show ?thesis by blast
  qed
  have rows: "(status r' = ''pending'' \<or> status r' = ''completed'' \<or> status r' = ''failed'') \<and>
        ((receipt r' \<noteq> None) = (status r' = ''completed''))"
    if "r' \<in> set (db s')" for r'
  proof -
    from that obtain r where r: "r \<in> set (db s)" "r' = upd r" unfolding db' by auto
    note old = consistent_row [OF c r(1)]
    show ?thesis
    proof (cases "op_hash r = h")
      case False
      with r(2) old show ?thesis by (simp add: upd_def)
    next
      case True
      from task_row [OF c task r(1) True] have "receipt r = None" by simp
      with True r(2) show ?thesis by (simp add: upd_def split: sum.split)
    qed
  qed
  have "consistent s'" using d1 d2 t rows by (rule consistentI)
  with step show ?thesis by simp
qed

lemma consistent_step: "consistent s \<Longrightarrow> consistent (snd (step ev s))"
  by (cases ev) (simp_all add: consistent_Submit consistent_Run)

lemma snd_run_Cons: "snd (run (ev # evs) s) = snd (run evs (snd (step ev s)))"
  by (simp split: prod.split)

lemma fst_run_Cons: "fst (run (ev # evs) s) = fst (step ev s) # fst (run evs (snd (step ev s)))"
  by (simp split: prod.split)

lemma consistent_run: "consistent s \<Longrightarrow> consistent (snd (run evs s))"
proof (induction evs arbitrary: s)
  case Nil
  then show ?case by simp
next
  case (Cons ev evs)
  from Cons.prems have "consistent (snd (step ev s))" by (rule consistent_step)
  then have "consistent (snd (run evs (snd (step ev s))))" by (rule Cons.IH)
  then show ?case by (simp only: snd_run_Cons)
qed

lemma consistent_reachable: "consistent (snd (run evs init_system))"
  by (rule consistent_run [OF consistent_init])


subsection \<open>The example trace\<close>

lemma parse_body_A: "parse_UserOperation body_A = Inr op_A"
  by (simp add: parse_UserOperation_def body_A_def op_A_def)

lemma send_confirmed: "send_user_op env_confirmed uop = Inr ''{}''"
  by (simp add: send_user_op_def env_confirmed_def)

lemma send_rejected: "send_user_op env_rejected uop = Inl (Raised ''nonce too low'')"
  by (simp add: send_user_op_def env_rejected_def)

lemma send_unserialisable:
  "send_user_op env_unserialisable uop =
     Inl (Raised ''Object of type HexBytes is not JSON serializable'')"
  by (simp add: send_user_op_def env_unserialisable_def)

lemma run_trace_A:
  "run trace_A init_system =
     ([Accepted ''id-1'', Accepted ''id-2'', Accepted ''id-3'', Processed ''id-1'',
       Processed ''id-2''],
      \<lparr>db = [row_1, row_2, row_3], tasks = [(''id-3'', op_A)]\<rparr>)"
  by (simp add: trace_A_def init_system_def step_Submit_eq step_Run_eq parse_body_A
        send_confirmed send_rejected row_1_def row_2_def row_3_def)

text \<open>
  C1. In every state the service reaches, a row has a receipt exactly when its status is
  \<open>completed\<close>, and its status is one of \<open>pending\<close>, \<open>completed\<close>, \<open>failed\<close>.
\<close>

theorem receipt_iff_completed:
  "r \<in> set (db (snd (run evs init_system))) \<Longrightarrow>
   ((receipt r \<noteq> None) = (status r = ''completed'')) \<and>
   (status r = ''pending'' \<or> status r = ''completed'' \<or> status r = ''failed'')"
  using consistent_row [OF consistent_reachable] by blast

theorem receipt_iff_completed_witness:
  "row_1 \<in> set (db (snd (run trace_A init_system))) \<and>
   row_2 \<in> set (db (snd (run trace_A init_system))) \<and>
   row_3 \<in> set (db (snd (run trace_A init_system))) \<and>
   status row_1 = ''completed'' \<and> receipt row_1 \<noteq> None \<and>
   status row_2 = ''failed'' \<and> receipt row_2 = None \<and>
   status row_3 = ''pending'' \<and> receipt row_3 = None"
  using receipt_iff_completed [of row_1 trace_A] receipt_iff_completed [of row_2 trace_A]
    receipt_iff_completed [of row_3 trace_A]
  by (simp add: run_trace_A) (simp add: row_1_def row_2_def row_3_def)


subsection \<open>Queries\<close>

lemma select_one_None: "(sql_select_one h tbl = None) = (h \<notin> set (map op_hash tbl))"
proof -
  have "(sql_select_one h tbl = None) = (filter (\<lambda>r. op_hash r = h) tbl = [])"
    by (simp add: sql_select_one_def split: list.split)
  also have "\<dots> = (h \<notin> set (map op_hash tbl))"
    by (auto simp: filter_empty_conv)
  finally show ?thesis .
qed

lemma select_one_row:
  assumes d: "distinct (map op_hash tbl)" and r: "r \<in> set tbl"
  shows "sql_select_one (op_hash r) tbl = Some (status r, receipt r)"
proof -
  let ?hits = "filter (\<lambda>x. op_hash x = op_hash r) tbl"
  from r have "r \<in> set ?hits" by simp
  then obtain r' rest where hits: "?hits = r' # rest" by (cases ?hits) auto
  then have "r' \<in> set ?hits" by simp
  then have "r' \<in> set tbl" "op_hash r' = op_hash r" by simp_all
  with d r have "r' = r" by (simp add: row_unique)
  with hits show ?thesis by (simp add: sql_select_one_def)
qed

lemma get_status_unknown:
  "h \<notin> set (map op_hash tbl) \<Longrightarrow> get_status v h tbl = Inl (HTTPException 404 ''Operation not found'')"
  using select_one_None [of h tbl] by (simp add: get_status_def)



lemma OpStatus_init_Inl: "OpStatus_init v h st rc = Inl e \<Longrightarrow> e = ValidationError"
  by (simp add: OpStatus_init_def split: if_splits)

lemma keys_reachable:
  "run evs init_system = (rs, s) \<Longrightarrow> map op_hash (db s) = accepted rs"
  using keys_run [of evs init_system rs s] by (simp add: init_system_def)

text \<open>
  C8. A status query for an identifier that intake never returned raises the
  \<open>HTTPException\<close> with status 404: it returns no \<open>OpStatus\<close>. This is so under either
  version of pydantic.
\<close>

theorem status_of_unissued_id:
  assumes "run evs init_system = (rs, s)" and "h \<notin> set (accepted rs)"
  shows "get_status v h (db s) = Inl (HTTPException 404 ''Operation not found'')"
proof -
  from assms(1) have "map op_hash (db s) = accepted rs" by (rule keys_reachable)
  with assms(2) show ?thesis by (simp add: get_status_unknown)
qed

theorem status_of_unissued_id_witness:
  "run trace_A init_system =
     ([Accepted ''id-1'', Accepted ''id-2'', Accepted ''id-3'', Processed ''id-1'',
       Processed ''id-2''],
      \<lparr>db = [row_1, row_2, row_3], tasks = [(''id-3'', op_A)]\<rparr>) \<and>
   ''id-9'' \<notin> set (accepted [Accepted ''id-1'', Accepted ''id-2'', Accepted ''id-3'',
       Processed ''id-1'', Processed ''id-2'']) \<and>
   get_status Pydantic1 ''id-9'' [row_1, row_2, row_3] =
     Inl (HTTPException 404 ''Operation not found'') \<and>
   get_status Pydantic2 ''id-9'' [row_1, row_2, row_3] =
     Inl (HTTPException 404 ''Operation not found'')"
  using status_of_unissued_id [OF run_trace_A, of "''id-9''" Pydantic1]
    status_of_unissued_id [OF run_trace_A, of "''id-9''" Pydantic2] run_trace_A by simp

text \<open>
  C5, as the code has it. The two UPDATE statements never raise. With an identifier that
  has no row they leave the table as it is, and so does \<open>process_op\<close>; on a row with
  that identifier they write the new status (and receipt) whatever the status of the row
  was, a terminal one included.
\<close>

theorem update_status_never_fails:
  "(\<exists>tbl'. sql_update_status st h tbl = Inr tbl') \<and>
   (\<exists>tbl'. sql_update_status_receipt st rc h tbl = Inr tbl') \<and>
   (h \<notin> set (map op_hash tbl) \<longrightarrow>
      sql_update_status st h tbl = Inr tbl \<and>
      sql_update_status_receipt st rc h tbl = Inr tbl \<and>
      process_op e h uop tbl = Inr tbl) \<and>
   (r \<in> set tbl \<and> op_hash r = h \<longrightarrow>
      (\<exists>tbl'. sql_update_status st h tbl = Inr tbl' \<and> r\<lparr>status := st\<rparr> \<in> set tbl') \<and>
      (\<exists>tbl'. sql_update_status_receipt st rc h tbl = Inr tbl' \<and>
              r\<lparr>status := st, receipt := Some rc\<rparr> \<in> set tbl'))"
proof -
  have same: "map (\<lambda>x. if op_hash x = h then f x else x) tbl = tbl"
    if "h \<notin> set (map op_hash tbl)" for f :: "operations_row \<Rightarrow> operations_row"
    using that by (induction tbl) auto
  have absent: "sql_update_status st h tbl = Inr tbl \<and>
      sql_update_status_receipt st rc h tbl = Inr tbl \<and> process_op e h uop tbl = Inr tbl"
    if "h \<notin> set (map op_hash tbl)"
    using same [OF that] by (simp add: sql_update_status_def sql_update_status_receipt_def
        process_op_eq)
  have present: "(\<exists>tbl'. sql_update_status st h tbl = Inr tbl' \<and> r\<lparr>status := st\<rparr> \<in> set tbl') \<and>
      (\<exists>tbl'. sql_update_status_receipt st rc h tbl = Inr tbl' \<and>
              r\<lparr>status := st, receipt := Some rc\<rparr> \<in> set tbl')"
    if "r \<in> set tbl \<and> op_hash r = h"
    using that by (force simp: sql_update_status_def sql_update_status_receipt_def)
  show ?thesis
    using absent present
    by (simp add: sql_update_status_def sql_update_status_receipt_def)
qed

theorem update_status_never_fails_witness:
  "''id-9'' \<notin> set (map op_hash [row_1, row_2, row_3]) \<and>
   sql_update_status ''failed'' ''id-9'' [row_1, row_2, row_3] = Inr [row_1, row_2, row_3] \<and>
   process_op env_rejected ''id-9'' op_A [row_1, row_2, row_3] = Inr [row_1, row_2, row_3] \<and>
   row_1 \<in> set [row_1, row_2, row_3] \<and> op_hash row_1 = ''id-1'' \<and>
   status row_1 = ''completed'' \<and>
   (\<exists>tbl'. sql_update_status ''failed'' ''id-1'' [row_1, row_2, row_3] = Inr tbl' \<and>
           row_1\<lparr>status := ''failed''\<rparr> \<in> set tbl')"
  using update_status_never_fails [of "''failed''" "''id-9''" "[row_1, row_2, row_3]" "''{}''"
      env_rejected op_A row_1]
    update_status_never_fails [of "''failed''" "''id-1''" "[row_1, row_2, row_3]" "''{}''"
      env_rejected op_A row_1]
  by (simp add: row_1_def row_2_def row_3_def)

theorem update_status_counterexample:
  "sql_update_status ''failed'' ''id-9'' [row_3] = Inr [row_3] \<and>
   process_op env_rejected ''id-9'' op_A [] = Inr [] \<and>
   process_op env_rejected ''id-1'' op_A [row_1] =
     Inr [\<lparr>op_hash = ''id-1'', user_op = op_A, status = ''failed'', receipt = Some ''{}'',
           created_at = 1700000000\<rparr>] \<and>
   process_op env_confirmed ''id-2'' op_A [row_2] =
     Inr [\<lparr>op_hash = ''id-2'', user_op = op_A, status = ''completed'', receipt = Some ''{}'',
           created_at = 1700000001\<rparr>]"
  by (simp add: process_op_eq send_rejected send_confirmed sql_update_status_def
        row_1_def row_2_def row_3_def)


subsection \<open>Intake\<close>

text \<open>
  C3, as the code has it. A body with a missing field is refused with the validation
  error and the state stays as it was. A body with all eleven fields is accepted whatever
  the sign of its gas limits and fees, when the identifier drawn is not yet a key of the
  table: one \<open>pending\<close> row with the operation as sent is appended and one task is
  scheduled.
\<close>

theorem intake_validation:
  "(body_sender b = None \<or> body_nonce b = None \<or> body_initCode b = None \<or>
    body_callData b = None \<or> body_callGasLimit b = None \<or>
    body_verificationGasLimit b = None \<or> body_preVerificationGas b = None \<or>
    body_maxFeePerGas b = None \<or> body_maxPriorityFeePerGas b = None \<or>
    body_signature b = None \<or> body_paymasterAndData b = None \<longrightarrow>
      post_submit_op b u t s = (Inl ValidationError, s)) \<and>
   (body_sender b = Some f1 \<and> body_nonce b = Some f2 \<and> body_initCode b = Some f3 \<and>
    body_callData b = Some f4 \<and> body_callGasLimit b = Some g1 \<and>
    body_verificationGasLimit b = Some g2 \<and> body_preVerificationGas b = Some g3 \<and>
    body_maxFeePerGas b = Some g4 \<and> body_maxPriorityFeePerGas b = Some g5 \<and>
    body_signature b = Some f5 \<and> body_paymasterAndData b = Some f6 \<and>
    u \<notin> set (map op_hash (db s)) \<longrightarrow>
      post_submit_op b u t s =
        (Inr u,
         s\<lparr>db := db s @ [\<lparr>op_hash = u,
               user_op = \<lparr>sender = f1, nonce = f2, initCode = f3, callData = f4,
                 callGasLimit = g1, verificationGasLimit = g2, preVerificationGas = g3,
                 maxFeePerGas = g4, maxPriorityFeePerGas = g5, signature = f5,
                 paymasterAndData = f6\<rparr>,
               status = ''pending'', receipt = None, created_at = t\<rparr>],
           tasks := tasks s @ [(u, \<lparr>sender = f1, nonce = f2, initCode = f3, callData = f4,
                 callGasLimit = g1, verificationGasLimit = g2, preVerificationGas = g3,
                 maxFeePerGas = g4, maxPriorityFeePerGas = g5, signature = f5,
                 paymasterAndData = f6\<rparr>)]\<rparr>))"
proof (intro conjI impI)
  assume "body_sender b = None \<or> body_nonce b = None \<or> body_initCode b = None \<or>
    body_callData b = None \<or> body_callGasLimit b = None \<or>
    body_verificationGasLimit b = None \<or> body_preVerificationGas b = None \<or>
    body_maxFeePerGas b = None \<or> body_maxPriorityFeePerGas b = None \<or>
    body_signature b = None \<or> body_paymasterAndData b = None"
  then have "parse_UserOperation b = Inl ValidationError"
    unfolding parse_UserOperation_def by (rule if_P)
  then show "post_submit_op b u t s = (Inl ValidationError, s)"
    by (simp add: post_submit_op_eq)
next
  assume a: "body_sender b = Some f1 \<and> body_nonce b = Some f2 \<and> body_initCode b = Some f3 \<and>
    body_callData b = Some f4 \<and> body_callGasLimit b = Some g1 \<and>
    body_verificationGasLimit b = Some g2 \<and> body_preVerificationGas b = Some g3 \<and>
    body_maxFeePerGas b = Some g4 \<and> body_maxPriorityFeePerGas b = Some g5 \<and>
    body_signature b = Some f5 \<and> body_paymasterAndData b = Some f6 \<and>
    u \<notin> set (map op_hash (db s))"
  then have "parse_UserOperation b = Inr \<lparr>sender = f1, nonce = f2, initCode = f3, callData = f4,
                 callGasLimit = g1, verificationGasLimit = g2, preVerificationGas = g3,
                 maxFeePerGas = g4, maxPriorityFeePerGas = g5, signature = f5,
                 paymasterAndData = f6\<rparr>"
    by (simp add: parse_UserOperation_def)
  with a show "post_submit_op b u t s =
        (Inr u,
         s\<lparr>db := db s @ [\<lparr>op_hash = u,
               user_op = \<lparr>sender = f1, nonce = f2, initCode = f3, callData = f4,
                 callGasLimit = g1, verificationGasLimit = g2, preVerificationGas = g3,
                 maxFeePerGas = g4, maxPriorityFeePerGas = g5, signature = f5,
                 paymasterAndData = f6\<rparr>,
               status = ''pending'', receipt = None, created_at = t\<rparr>],
           tasks := tasks s @ [(u, \<lparr>sender = f1, nonce = f2, initCode = f3, callData = f4,
                 callGasLimit = g1, verificationGasLimit = g2, preVerificationGas = g3,
                 maxFeePerGas = g4, maxPriorityFeePerGas = g5, signature = f5,
                 paymasterAndData = f6\<rparr>)]\<rparr>)"
    by (simp add: post_submit_op_eq)
qed

theorem intake_validation_witness:
  "body_signature body_unsigned = None \<and>
   post_submit_op body_unsigned ''id-1'' 1700000000 init_system = (Inl ValidationError, init_system) \<and>
   body_callGasLimit body_negative = Some (- 1) \<and> body_maxFeePerGas body_negative = Some (- 5) \<and>
   ''id-1'' \<notin> set (map op_hash (db init_system)) \<and>
   post_submit_op body_negative ''id-1'' 1700000000 init_system =
     (Inr ''id-1'',
      \<lparr>db = [\<lparr>op_hash = ''id-1'', user_op = op_negative, status = ''pending'', receipt = None,
               created_at = 1700000000\<rparr>],
       tasks = [(''id-1'', op_negative)]\<rparr>)"
  using intake_validation [where b = body_unsigned and u = "''id-1''" and t = 1700000000
      and s = init_system]
    intake_validation [where b = body_negative and u = "''id-1''" and t = 1700000000
      and s = init_system and ?f1.0 = "''0xAA''" and ?f2.0 = 0 and ?f3.0 = "''0x''"
      and ?f4.0 = "''0xb61d27f6''" and ?g1.0 = "- 1" and ?g2.0 = 150000 and ?g3.0 = 21000
      and ?g4.0 = "- 5" and ?g5.0 = 2 and ?f5.0 = "''0xsig''" and ?f6.0 = "''0x''"]
  by (simp add: body_unsigned_def body_negative_def op_negative_def init_system_def)

theorem intake_rejects_negative_gas_counterexample:
  "callGasLimit op_negative < 0 \<and> maxFeePerGas op_negative < 0 \<and>
   parse_UserOperation body_negative = Inr op_negative \<and>
   post_submit_op body_negative ''id-1'' 1700000000 init_system =
     (Inr ''id-1'',
      \<lparr>db = [\<lparr>op_hash = ''id-1'', user_op = op_negative, status = ''pending'', receipt = None,
               created_at = 1700000000\<rparr>],
       tasks = [(''id-1'', op_negative)]\<rparr>)"
  by (simp add: post_submit_op_eq parse_UserOperation_def body_negative_def op_negative_def
        init_system_def)


subsection \<open>Identifiers and history\<close>

lemma distinct_accepted:
  assumes "run evs init_system = (rs, s)"
  shows "distinct (accepted rs)"
proof -
  from assms have "s = snd (run evs init_system)" by simp
  then have "consistent s" by (simp add: consistent_reachable)
  then have "distinct (map op_hash (db s))" by (rule consistent_keys)
  with keys_reachable [OF assms] show ?thesis by simp
qed

lemma reachable_consistent: "run evs init_system = (rs, s) \<Longrightarrow> consistent s"
  using consistent_reachable [of evs] by simp

lemma OpStatus_rows_Pydantic1:
  "OpStatus_rows Pydantic1 rows = Inr (map (\<lambda>(h, st, rc). OpStatus h st (loads_receipt rc)) rows)"
  by (induction rows) (auto simp: OpStatus_init_def)

lemma get_history_Pydantic1:
  "get_history Pydantic1 tbl =
     Inr (map (\<lambda>r. OpStatus (op_hash r) (status r) (loads_receipt (receipt r))) tbl)"
  by (simp add: get_history_def sql_select_all_def OpStatus_rows_Pydantic1 comp_def)

lemma OpStatus_rows_Pydantic2:
  "(h, st, None) \<in> set rows \<Longrightarrow> OpStatus_rows Pydantic2 rows = Inl ValidationError"
proof (induction rows)
  case Nil
  then show ?case by simp
next
  case (Cons x rows)
  obtain h' st' rc' where x: "x = (h', st', rc')" by (cases x)
  show ?case
  proof (cases "OpStatus_init Pydantic2 h' st' (loads_receipt rc')")
    case (Inl e)
    with OpStatus_init_Inl [OF Inl] show ?thesis by (simp add: x)
  next
    case (Inr y)
    then have "loads_receipt rc' \<noteq> None" by (simp add: OpStatus_init_def split: if_splits)
    then have "rc' \<noteq> None" by (cases rc') (simp_all add: loads_receipt_def)
    with Cons.prems x have "(h, st, None) \<in> set rows" by auto
    then have "OpStatus_rows Pydantic2 rows = Inl ValidationError" by (rule Cons.IH)
    with Inr show ?thesis by (simp add: x)
  qed
qed

lemma get_history_Pydantic2:
  assumes "r \<in> set tbl" and "receipt r = None"
  shows "get_history Pydantic2 tbl = Inl ValidationError"
proof -
  from assms have "(op_hash r, status r, None) \<in> set (sql_select_all tbl)"
    by (force simp: sql_select_all_def)
  then show ?thesis unfolding get_history_def by (rule OpStatus_rows_Pydantic2)
qed

lemma get_status_appended:
  assumes "h \<notin> set (map op_hash tbl)"
  shows "get_status v h (tbl @ [\<lparr>op_hash = h, user_op = uop, status = st, receipt = None,
            created_at = t\<rparr>]) = OpStatus_init v h st None"
proof -
  from assms have "filter (\<lambda>r. op_hash r = h) tbl = []"
    by (auto simp: filter_empty_conv)
  then show ?thesis
    by (simp add: get_status_def sql_select_one_def loads_receipt_def)
qed

text \<open>
  What holds of intake and of the status query right after it, in general: the identifiers
  handed out are pairwise distinct, a well-formed body with an unused draw is accepted, and
  the query for the new identifier is the construction of \<open>OpStatus\<close> with status
  \<open>pending\<close> and receipt \<open>None\<close>, which pydantic 1 builds and pydantic 2 refuses.
\<close>

lemma status_after_intake:
  assumes "run evs init_system = (rs, s)"
  shows "distinct (accepted rs) \<and>
    (parse_UserOperation b = Inr uop \<and> u \<notin> set (accepted rs) \<longrightarrow>
       fst (step (Submit b u t) s) = Accepted u) \<and>
    (step (Submit b u t) s = (Accepted h, s') \<longrightarrow>
       h \<notin> set (accepted rs) \<and>
       get_status Pydantic1 h (db s') = Inr (OpStatus h ''pending'' None) \<and>
       get_status Pydantic2 h (db s') = Inl ValidationError)"
proof (intro conjI impI)
  show "distinct (accepted rs)" using assms by (rule distinct_accepted)
next
  assume "parse_UserOperation b = Inr uop \<and> u \<notin> set (accepted rs)"
  with keys_reachable [OF assms] show "fst (step (Submit b u t) s) = Accepted u"
    by (simp add: step_Submit_eq)
next
  assume st: "step (Submit b u t) s = (Accepted h, s')"
  then obtain uop' where p: "parse_UserOperation b = Inr uop'"
    by (cases "parse_UserOperation b") (simp_all add: step_Submit_eq)
  from st p have fresh: "u \<notin> set (map op_hash (db s))"
    by (auto simp: step_Submit_eq split: if_splits)
  from st p fresh have h: "h = u"
    and s': "s' = s\<lparr>db := db s @ [\<lparr>op_hash = u, user_op = uop', status = ''pending'',
                                   receipt = None, created_at = t\<rparr>],
                  tasks := tasks s @ [(u, uop')]\<rparr>"
    by (auto simp: step_Submit_eq)
  from fresh h keys_reachable [OF assms] show "h \<notin> set (accepted rs)" by simp
  from fresh show "get_status Pydantic1 h (db s') = Inr (OpStatus h ''pending'' None)"
    unfolding h s' by (simp add: get_status_appended OpStatus_init_def)
  from fresh show "get_status Pydantic2 h (db s') = Inl ValidationError"
    unfolding h s' by (simp add: get_status_appended OpStatus_init_def)
qed

text \<open>
  C6 at its failing input. Operation A is submitted to the empty service and accepted
  under the identifier \<open>id-1\<close>; the row is \<open>pending\<close> with no receipt. The status query
  for \<open>id-1\<close>, made before the task has run, builds \<open>OpStatus(..., receipt=None)\<close>: under
  pydantic 2 it raises the \<open>ValidationError\<close> instead of answering \<open>pending\<close>; under
  pydantic 1 it answers \<open>pending\<close>.
\<close>

theorem status_query_after_intake_raises:
  "run [Submit body_A ''id-1'' 1700000000 :: string event] init_system =
     ([Accepted ''id-1''], \<lparr>db = [pending_1], tasks = [(''id-1'', op_A)]\<rparr>) \<and>
   get_status Pydantic2 ''id-1'' [pending_1] = Inl ValidationError \<and>
   get_status Pydantic1 ''id-1'' [pending_1] = Inr (OpStatus ''id-1'' ''pending'' None)"
  by (simp add: init_system_def step_Submit_eq parse_body_A pending_1_def get_status_def
        sql_select_one_def loads_receipt_def OpStatus_init_def)

text \<open>
  What holds of the history in general: the rows of the table are those of the accepted
  intake calls, each once and in the order of the calls, and the same body submitted twice
  under two new identifiers gives two rows and two tasks. Under pydantic 1 the history
  lists exactly these rows; under pydantic 2 it raises as soon as one row has no receipt.
\<close>

lemma history_of_reachable:
  assumes "run evs init_system = (rs, s)"
  shows "map op_hash (db s) = accepted rs \<and> distinct (accepted rs) \<and>
    (\<exists>xs. get_history Pydantic1 (db s) = Inr xs \<and> map os_op_hash xs = accepted rs) \<and>
    (r \<in> set (db s) \<and> status r \<noteq> ''completed'' \<longrightarrow>
       get_history Pydantic2 (db s) = Inl ValidationError) \<and>
    (parse_UserOperation b = Inr uop \<and> u1 \<notin> set (accepted rs) \<and> u2 \<notin> set (accepted rs) \<and>
     u1 \<noteq> u2 \<longrightarrow>
       (\<exists>s2. run [Submit b u1 t1, Submit b u2 t2] s = ([Accepted u1, Accepted u2], s2) \<and>
             tasks s2 = tasks s @ [(u1, uop), (u2, uop)] \<and>
             map op_hash (db s2) = accepted rs @ [u1, u2]))"
proof -
  have keys: "map op_hash (db s) = accepted rs" using assms by (rule keys_reachable)
  have dist: "distinct (accepted rs)" using assms by (rule distinct_accepted)
  have v1: "\<exists>xs. get_history Pydantic1 (db s) = Inr xs \<and> map os_op_hash xs = accepted rs"
    using keys by (simp add: get_history_Pydantic1 comp_def)
  have v2: "get_history Pydantic2 (db s) = Inl ValidationError"
    if "r \<in> set (db s) \<and> status r \<noteq> ''completed''"
  proof -
    from assms have "consistent s" by (rule reachable_consistent)
    from consistent_row [OF this, of r] that have none: "receipt r = None" by simp
    from that have "r \<in> set (db s)" by simp
    then show ?thesis using none by (rule get_history_Pydantic2)
  qed
  have twice: "\<exists>s2. run [Submit b u1 t1, Submit b u2 t2] s = ([Accepted u1, Accepted u2], s2) \<and>
             tasks s2 = tasks s @ [(u1, uop), (u2, uop)] \<and>
             map op_hash (db s2) = accepted rs @ [u1, u2]"
    if "parse_UserOperation b = Inr uop \<and> u1 \<notin> set (accepted rs) \<and> u2 \<notin> set (accepted rs) \<and>
     u1 \<noteq> u2"
  proof -
    from keys have "op_hash ` set (db s) = set (accepted rs)" by (metis set_map)
    with that keys show ?thesis
      by (auto simp: step_Submit_eq)
  qed
  from keys dist v1 v2 twice show ?thesis by blast
qed

text \<open>
  C7 at its failing input. Operation A is submitted twice to the empty service, under
  \<open>id-1\<close> and \<open>id-2\<close>: both calls are accepted, the table has two rows and two tasks are
  scheduled. The history query then builds \<open>OpStatus(..., receipt=None)\<close> for the first
  row: under pydantic 2 it raises the \<open>ValidationError\<close> and lists nothing; under
  pydantic 1 it lists the two entries.
\<close>

theorem history_of_pending_rows_raises:
  "run [Submit body_A ''id-1'' 1700000000, Submit body_A ''id-2'' 1700000001 :: string event]
       init_system =
     ([Accepted ''id-1'', Accepted ''id-2''],
      \<lparr>db = [pending_1, pending_2], tasks = [(''id-1'', op_A), (''id-2'', op_A)]\<rparr>) \<and>
   get_history Pydantic2 [pending_1, pending_2] = Inl ValidationError \<and>
   get_history Pydantic1 [pending_1, pending_2] =
     Inr [OpStatus ''id-1'' ''pending'' None, OpStatus ''id-2'' ''pending'' None]"
  by (simp add: init_system_def step_Submit_eq parse_body_A pending_1_def pending_2_def
        get_history_def sql_select_all_def loads_receipt_def OpStatus_init_def)

subsection \<open>What the worker leaves alone\<close>

lemma frame_step:
  "\<exists>new. map (\<lambda>r. (op_hash r, user_op r, created_at r)) (db (snd (step ev s))) =
          map (\<lambda>r. (op_hash r, user_op r, created_at r)) (db s) @ new"
proof (cases ev)
  case (Submit b u t)
  then show ?thesis
    by (simp add: step_Submit_eq split: sum.split)
next
  case (Run i e)
  show ?thesis
  proof (cases "i < length (tasks s)")
    case False
    with Run show ?thesis by (simp add: step_Run_eq)
  next
    case True
    define upd :: "operations_row \<Rightarrow> operations_row" where
      "upd = (\<lambda>r. if op_hash r = fst (tasks s ! i)
                    then (case send_user_op e (snd (tasks s ! i)) of
                            Inl x \<Rightarrow> r\<lparr>status := ''failed''\<rparr>
                          | Inr rc \<Rightarrow> r\<lparr>status := ''completed'', receipt := Some rc\<rparr>)
                    else r)"
    have tbl: "db (snd (step ev s)) = map upd (db s)"
      using Run True by (simp add: step_Run_eq upd_def)
    have "(op_hash (upd r), user_op (upd r), created_at (upd r)) =
          (op_hash r, user_op r, created_at r)" for r
      by (simp add: upd_def split: sum.split)
    then have m: "map (\<lambda>r. (op_hash r, user_op r, created_at r)) (map upd (db s)) =
               map (\<lambda>r. (op_hash r, user_op r, created_at r)) (db s)"
      by (simp add: comp_def)
    show ?thesis unfolding tbl m by (rule exI [of _ "[]"]) simp
  qed
qed

lemma frame_run:
  "\<exists>new. map (\<lambda>r. (op_hash r, user_op r, created_at r)) (db (snd (run evs s))) =
          map (\<lambda>r. (op_hash r, user_op r, created_at r)) (db s) @ new"
proof (induction evs arbitrary: s)
  case Nil
  show ?case by simp
next
  case (Cons ev evs)
  from frame_step [of ev s] obtain n1 where
    1: "map (\<lambda>r. (op_hash r, user_op r, created_at r)) (db (snd (step ev s))) =
        map (\<lambda>r. (op_hash r, user_op r, created_at r)) (db s) @ n1" by blast
  from Cons.IH [of "snd (step ev s)"] obtain n2 where
    2: "map (\<lambda>r. (op_hash r, user_op r, created_at r)) (db (snd (run evs (snd (step ev s))))) =
        map (\<lambda>r. (op_hash r, user_op r, created_at r)) (db (snd (step ev s))) @ n2" by blast
  from 1 2 show ?case by (simp only: snd_run_Cons append_assoc) blast
qed

text \<open>
  C9. \<open>process_op\<close> always returns a table; the table has the same rows in the same
  places, each with the identifier, the operation and the creation time it had, and a row
  with another identifier is the row it was. Over any sequence of requests and task runs,
  from any state, a row that is in the table stays at its place with its identifier, its
  operation and its creation time.
\<close>

theorem worker_changes_status_and_receipt_only:
  "(\<exists>tbl'. process_op e h uop tbl = Inr tbl' \<and> length tbl' = length tbl \<and>
      (\<forall>i < length tbl.
         op_hash (tbl' ! i) = op_hash (tbl ! i) \<and> user_op (tbl' ! i) = user_op (tbl ! i) \<and>
         created_at (tbl' ! i) = created_at (tbl ! i) \<and>
         (op_hash (tbl ! i) \<noteq> h \<longrightarrow> tbl' ! i = tbl ! i))) \<and>
   (run evs s = (rs, s') \<and> i < length (db s) \<longrightarrow>
      i < length (db s') \<and> op_hash (db s' ! i) = op_hash (db s ! i) \<and>
      user_op (db s' ! i) = user_op (db s ! i) \<and> created_at (db s' ! i) = created_at (db s ! i))"
proof (intro conjI impI)
  show "\<exists>tbl'. process_op e h uop tbl = Inr tbl' \<and> length tbl' = length tbl \<and>
      (\<forall>i < length tbl.
         op_hash (tbl' ! i) = op_hash (tbl ! i) \<and> user_op (tbl' ! i) = user_op (tbl ! i) \<and>
         created_at (tbl' ! i) = created_at (tbl ! i) \<and>
         (op_hash (tbl ! i) \<noteq> h \<longrightarrow> tbl' ! i = tbl ! i))"
    by (simp add: process_op_eq split: sum.split)
next
  assume a: "run evs s = (rs, s') \<and> i < length (db s)"
  let ?f = "\<lambda>r. (op_hash r, user_op r, created_at r)"
  from frame_run [of evs s] a obtain new where
    eq: "map ?f (db s') = map ?f (db s) @ new" by auto
  from eq have "length (map ?f (db s')) = length (map ?f (db s) @ new)" by simp
  with a have i': "i < length (db s')" by simp
  from eq have "map ?f (db s') ! i = (map ?f (db s) @ new) ! i" by simp
  with a i' have "?f (db s' ! i) = ?f (db s ! i)" by (simp add: nth_append)
  with i' show "i < length (db s')" "op_hash (db s' ! i) = op_hash (db s ! i)"
    "user_op (db s' ! i) = user_op (db s ! i)" "created_at (db s' ! i) = created_at (db s ! i)"
    by simp_all
qed

theorem worker_changes_status_and_receipt_only_witness:
  "process_op env_confirmed ''id-3'' op_A [row_1, row_2, row_3] =
     Inr [row_1, row_2, \<lparr>op_hash = ''id-3'', user_op = op_A, status = ''completed'',
                          receipt = Some ''{}'', created_at = 1700000002\<rparr>] \<and>
   run trace_A init_system =
     ([Accepted ''id-1'', Accepted ''id-2'', Accepted ''id-3'', Processed ''id-1'',
       Processed ''id-2''],
      \<lparr>db = [row_1, row_2, row_3], tasks = [(''id-3'', op_A)]\<rparr>) \<and>
   run [Run 0 env_confirmed] \<lparr>db = [row_1, row_2, row_3], tasks = [(''id-3'', op_A)]\<rparr> =
     ([Processed ''id-3''],
      \<lparr>db = [row_1, row_2, \<lparr>op_hash = ''id-3'', user_op = op_A, status = ''completed'',
                          receipt = Some ''{}'', created_at = 1700000002\<rparr>], tasks = []\<rparr>) \<and>
   (2::nat) < length [row_1, row_2, row_3] \<and> user_op row_3 = op_A \<and>
   created_at row_3 = 1700000002"
  using worker_changes_status_and_receipt_only [where e = env_confirmed and h = "''id-3''"
      and uop = op_A and tbl = "[row_1, row_2, row_3]" and evs = "[Run 0 env_confirmed]"
      and s = "\<lparr>db = [row_1, row_2, row_3], tasks = [(''id-3'', op_A)]\<rparr>" and i = 2
      and rs = "[Processed ''id-3'']"
      and s' = "\<lparr>db = [row_1, row_2, \<lparr>op_hash = ''id-3'', user_op = op_A,
                  status = ''completed'', receipt = Some ''{}'', created_at = 1700000002\<rparr>],
                tasks = []\<rparr>"]
    run_trace_A
  by (simp add: process_op_eq send_confirmed step_Run_eq row_1_def row_2_def row_3_def)


subsection \<open>Terminal rows\<close>












subsection \<open>The worker\<close>

lemma send_user_op_Inr:
  "(send_user_op e uop = Inr rc) =
   (\<exists>n raw tx_hash rcpt.
      get_transaction_count e = Inr n \<and> sign_transaction e (build_tx uop n) = Inr raw \<and>
      send_raw_transaction e raw = Inr tx_hash \<and>
      wait_for_transaction_receipt e tx_hash = Inr rcpt \<and> json_dumps e rcpt = Inr rc)"
proof (cases "get_transaction_count e")
  case (Inl x)
  then show ?thesis by (simp add: send_user_op_def)
next
  case n: (Inr n)
  show ?thesis
  proof (cases "sign_transaction e (build_tx uop n)")
    case (Inl x)
    with n show ?thesis by (simp add: send_user_op_def)
  next
    case raw: (Inr raw)
    show ?thesis
    proof (cases "send_raw_transaction e raw")
      case (Inl x)
      with n raw show ?thesis by (simp add: send_user_op_def)
    next
      case h: (Inr tx_hash)
      show ?thesis
      proof (cases "wait_for_transaction_receipt e tx_hash")
        case (Inl x)
        with n raw h show ?thesis by (simp add: send_user_op_def)
      next
        case (Inr rcpt)
        with n raw h show ?thesis by (simp add: send_user_op_def)
      qed
    qed
  qed
qed

text \<open>
  What a run of a task does, in general. Every accepted operation has a task. When a task
  runs, the row of its identifier is \<open>pending\<close> with no receipt; after the run it is
  \<open>completed\<close> with the text of the receipt when the calls \<open>get_transaction_count\<close>,
  \<open>sign_transaction\<close>, \<open>send_raw_transaction\<close>, \<open>wait_for_transaction_receipt\<close> and
  \<open>json.dumps\<close> have all returned, and \<open>failed\<close> with no receipt when one of them has
  raised.
\<close>

lemma worker_outcome:
  fixes evs :: "'r event list" and e :: "'r env"
  assumes "run evs init_system = (rs, s)" and "i < length (tasks s)"
    and "tasks s ! i = (h, uop)"
  shows "sql_select_one h (db s) = Some (''pending'', None) \<and>
    (\<exists>s'. step (Run i e) s = (Processed h, s') \<and>
          sql_select_one h (db s') =
            (case send_user_op e uop of
               Inl x \<Rightarrow> Some (''failed'', None)
             | Inr rc \<Rightarrow> Some (''completed'', Some rc))) \<and>
    ((send_user_op e uop = Inr rc) =
       (\<exists>n raw tx_hash rcpt.
          get_transaction_count e = Inr n \<and> sign_transaction e (build_tx uop n) = Inr raw \<and>
          send_raw_transaction e raw = Inr tx_hash \<and>
          wait_for_transaction_receipt e tx_hash = Inr rcpt \<and> json_dumps e rcpt = Inr rc)) \<and>
    (step (Submit b u t :: 'r event) s = (Accepted h', s1) \<longrightarrow>
       (\<exists>uop'. parse_UserOperation b = Inr uop' \<and> (h', uop') \<in> set (tasks s1)))"
proof (intro conjI impI)
  from assms(1) have c: "consistent s" by (rule reachable_consistent)
  from assms(2,3) have task: "(h, uop) \<in> set (tasks s)" by (metis nth_mem)
  from consistent_task [OF c task] obtain r where r: "r \<in> set (db s)" "op_hash r = h"
    by blast
  from task_row [OF c task r] have row: "status r = ''pending''" "receipt r = None" by simp_all
  from select_one_row [OF consistent_keys [OF c] r(1)] r(2) row
  show "sql_select_one h (db s) = Some (''pending'', None)" by simp
  define upd :: "operations_row \<Rightarrow> operations_row" where
    "upd = (\<lambda>r. if op_hash r = h
                  then (case send_user_op e uop of
                          Inl x \<Rightarrow> r\<lparr>status := ''failed''\<rparr>
                        | Inr rc \<Rightarrow> r\<lparr>status := ''completed'', receipt := Some rc\<rparr>)
                  else r)"
  define s' where "s' = s\<lparr>db := map upd (db s), tasks := drop_nth i (tasks s)\<rparr>"
  have st: "step (Run i e) s = (Processed h, s')"
    using assms(2,3) by (simp add: step_Run_eq upd_def s'_def)
  then have "s' = snd (step (Run i e) s)" by simp
  then have "consistent s'" using consistent_step [OF c, of "Run i e"] by simp
  then have d: "distinct (map op_hash (db s'))" by (rule consistent_keys)
  from r(1) have mem: "upd r \<in> set (db s')" by (simp add: s'_def)
  have key: "op_hash (upd r) = h" using r(2) by (simp add: upd_def split: sum.split)
  have after: "(status (upd r), receipt (upd r)) =
      (case send_user_op e uop of
         Inl x \<Rightarrow> (''failed'', None)
       | Inr rc \<Rightarrow> (''completed'', Some rc))"
    using r(2) row by (simp add: upd_def split: sum.split)
  from select_one_row [OF d mem] key after
  have "sql_select_one h (db s') =
      (case send_user_op e uop of
         Inl x \<Rightarrow> Some (''failed'', None)
       | Inr rc \<Rightarrow> Some (''completed'', Some rc))"
    by (simp split: sum.split)
  with st show "\<exists>s'. step (Run i e) s = (Processed h, s') \<and>
          sql_select_one h (db s') =
            (case send_user_op e uop of
               Inl x \<Rightarrow> Some (''failed'', None)
             | Inr rc \<Rightarrow> Some (''completed'', Some rc))"
    by blast
next
  show "(send_user_op e uop = Inr rc) =
       (\<exists>n raw tx_hash rcpt.
          get_transaction_count e = Inr n \<and> sign_transaction e (build_tx uop n) = Inr raw \<and>
          send_raw_transaction e raw = Inr tx_hash \<and>
          wait_for_transaction_receipt e tx_hash = Inr rcpt \<and> json_dumps e rcpt = Inr rc)"
    by (rule send_user_op_Inr)
next
  assume a: "step (Submit b u t :: 'r event) s = (Accepted h', s1)"
  then have f: "fst (step (Submit b u t :: 'r event) s) = Accepted h'"
    and g: "snd (step (Submit b u t :: 'r event) s) = s1" by simp_all
  show "\<exists>uop'. parse_UserOperation b = Inr uop' \<and> (h', uop') \<in> set (tasks s1)"
  proof (cases "parse_UserOperation b")
    case (Inl x)
    with f show ?thesis by (simp add: step_Submit_eq)
  next
    case (Inr uop')
    with f have "u \<notin> set (map op_hash (db s))" "h' = u"
      by (simp_all add: step_Submit_eq split: if_splits)
    with Inr g have "(h', uop') \<in> set (tasks s1)"
      by (auto simp: step_Submit_eq)
    with Inr show ?thesis by blast
  qed
qed

text \<open>
  C2 at its failing input. Operation A is accepted under \<open>id-1\<close> and its task runs
  against a gateway where fetching the sequence number, signing, broadcasting and waiting
  for inclusion all succeed and return the receipt. \<open>json.dumps(dict(receipt))\<close> then
  raises inside the \<open>try\<close>, so the handler writes \<open>failed\<close>: the included transaction
  is recorded as \<open>failed\<close> with no receipt. Against the gateway whose receipt
  \<open>json.dumps\<close> takes, the same run records \<open>completed\<close> with the receipt.
\<close>

theorem included_transaction_recorded_failed:
  "get_transaction_count env_unserialisable = Inr 5 \<and>
   sign_transaction env_unserialisable (build_tx op_A 5) = Inr ''0xraw'' \<and>
   send_raw_transaction env_unserialisable ''0xraw'' = Inr ''0xhash'' \<and>
   wait_for_transaction_receipt env_unserialisable ''0xhash'' = Inr ''receipt'' \<and>
   json_dumps env_unserialisable ''receipt'' =
     Inl (Raised ''Object of type HexBytes is not JSON serializable'') \<and>
   run [Submit body_A ''id-1'' 1700000000, Run 0 env_unserialisable] init_system =
     ([Accepted ''id-1'', Processed ''id-1''],
      \<lparr>db = [\<lparr>op_hash = ''id-1'', user_op = op_A, status = ''failed'', receipt = None,
               created_at = 1700000000\<rparr>],
       tasks = []\<rparr>) \<and>
   run [Submit body_A ''id-1'' 1700000000, Run 0 env_confirmed] init_system =
     ([Accepted ''id-1'', Processed ''id-1''], \<lparr>db = [row_1], tasks = []\<rparr>)"
  by (simp add: env_unserialisable_def env_confirmed_def init_system_def step_Submit_eq
        step_Run_eq parse_body_A send_user_op_def row_1_def)

end
